theory Spec2Isabelle
  imports Complex_Main "HOL-Library.Word"
begin

unbundle bit_operations_syntax

section \<open>Single-precision values\<close>

text \<open>
  The encoder and the bridge compute with C++ \<^verbatim>\<open>float\<close> (IEEE 754 binary32 on the
  ESP32, every operation rounded to single precision). A finite float is modelled by
  the rational number it denotes, the other values by constructors of their own. The
  two zeros denote the same rational; the program never divides by a variable nor
  inspects a sign bit, so it cannot tell them apart (\<^verbatim>\<open>-0.0f == 0.0f\<close> holds in C++
  as well). Not every rational is a float; what is proved for every \<open>Finite q\<close> holds
  for the floats among them.
\<close>

datatype f32 = Finite rat | PInf | NInf | NaN

text \<open>Round to the nearest integer, ties to the even one (the default rounding mode).\<close>

definition rne :: "rat \<Rightarrow> int" where
  "rne x = (let f = \<lfloor>x\<rfloor>; d = x - of_int f in
     if d < 1/2 then f else if 1/2 < d then f + 1 else if even f then f else f + 1)"

text \<open>
  The exponent of the unit in the last place of a magnitude \<open>a\<close>: the largest \<open>k\<close> in
  \<open>-148 .. 104\<close> with \<open>2 ^ (k + 23) \<le> a\<close> (24 significant bits), and \<open>-149\<close> for the
  lowest normal binade and the subnormal numbers. \<open>ulp_search n\<close> tries
  \<open>k = n - 149, n - 150, ..., -148\<close> in this order.
\<close>

primrec ulp_search :: "nat \<Rightarrow> rat \<Rightarrow> int" where
  "ulp_search 0 a = -149"
| "ulp_search (Suc n) a =
     (if 2 powi (int n - 125) \<le> a then int n - 148 else ulp_search n a)"

definition f32_ulp :: "rat \<Rightarrow> rat" where
  "f32_ulp a = 2 powi (ulp_search 253 a)"

text \<open>The magnitude \<open>a \<ge> 0\<close> rounded to the grid of its binade.\<close>

definition round_mag :: "rat \<Rightarrow> rat" where
  "round_mag a = of_int (rne (a / f32_ulp a)) * f32_ulp a"

text \<open>
  The result of an arithmetic operation whose exact value is \<open>q\<close>: rounded to nearest
  even, symmetric in the sign, infinite when the rounded magnitude leaves the range.
\<close>

definition f32_round :: "rat \<Rightarrow> f32" where
  "f32_round q =
     (if q < 0
      then (let r = round_mag (- q) in if 2 ^ 128 \<le> r then NInf else Finite (- r))
      else (let r = round_mag q in if 2 ^ 128 \<le> r then PInf else Finite r))"

text \<open>Comparisons: every comparison with a NaN is false.\<close>

fun f32_lt :: "f32 \<Rightarrow> f32 \<Rightarrow> bool" where
  "f32_lt NaN y = False"
| "f32_lt x NaN = False"
| "f32_lt (Finite a) (Finite b) = (a < b)"
| "f32_lt x NInf = False"
| "f32_lt NInf y = True"
| "f32_lt PInf y = False"
| "f32_lt x PInf = True"

definition f32_gt :: "f32 \<Rightarrow> f32 \<Rightarrow> bool" where
  "f32_gt x y = f32_lt y x"

fun f32_eq :: "f32 \<Rightarrow> f32 \<Rightarrow> bool" where
  "f32_eq NaN y = False"
| "f32_eq x NaN = False"
| "f32_eq x y = (x = y)"

text \<open>
  Multiplication and division by a float literal \<open>c\<close> that is finite and positive
  (the program's only ones are \<^verbatim>\<open>3283.0f\<close> and \<^verbatim>\<open>127.0f\<close>).
\<close>

fun f32_mul_lit :: "f32 \<Rightarrow> rat \<Rightarrow> f32" where
  "f32_mul_lit (Finite a) c = f32_round (a * c)"
| "f32_mul_lit x c = x"

fun f32_div_lit :: "f32 \<Rightarrow> rat \<Rightarrow> f32" where
  "f32_div_lit (Finite a) c = f32_round (a / c)"
| "f32_div_lit x c = x"

text \<open>\<^verbatim>\<open>(float)b\<close> for a \<^verbatim>\<open>uint8_t\<close>: every value up to 255 is a float, so it is exact.\<close>

definition f32_of_u8 :: "8 word \<Rightarrow> f32" where
  "f32_of_u8 b = Finite (of_nat (unat b))"

text \<open>Dropping the fraction, towards zero.\<close>

definition trunc :: "rat \<Rightarrow> int" where
  "trunc q = (if 0 \<le> q then \<lfloor>q\<rfloor> else \<lceil>q\<rceil>)"

text \<open>
  \<^verbatim>\<open>(int16_t)x\<close> for a float: the fraction is dropped, and the behaviour is undefined
  when the result does not fit the type (also for an infinity or a NaN): \<open>None\<close>.
\<close>

fun f32_to_i16 :: "f32 \<Rightarrow> 16 word option" where
  "f32_to_i16 (Finite q) =
     (if - 32768 \<le> trunc q \<and> trunc q \<le> 32767 then Some (word_of_int (trunc q)) else None)"
| "f32_to_i16 x = None"

section \<open>The serial link\<close>

text \<open>
  \<^verbatim>\<open>L91Motor\<close> owns one \<^verbatim>\<open>HardwareSerial\<close> (Serial2). What the program does to it,
  and the settle delays in between, is recorded as a trace. \<open>Write cmd n\<close> is a call
  \<^verbatim>\<open>serial->write(cmd, len)\<close> that returned \<open>n\<close>. The link itself is not code of the
  repository: a \<open>transport\<close> tells, from the trace so far and the buffer handed over,
  how many bytes it accepts. The diagnostic text printed on the USB console
  (\<^verbatim>\<open>Serial.print\<close>) is not part of the trace.
\<close>

type_synonym byte = "8 word"

datatype event = Flush | Write "byte list" nat | Delay nat

type_synonym transport = "event list \<Rightarrow> byte list \<Rightarrow> nat"

fun is_write :: "event \<Rightarrow> bool" where
  "is_write (Write cmd n) = True"
| "is_write e = False"

definition write_calls :: "event list \<Rightarrow> event list" where
  "write_calls evs = filter is_write evs"

section \<open>The frame encoder (l91\_motor.cpp)\<close>

text \<open>
  \<^verbatim>\<open>sendCommand(cmd, len)\<close>; the list is the first \<open>len\<close> bytes of the buffer. Every
  operation returns its \<^verbatim>\<open>bool\<close> together with the extended trace.
\<close>

definition sendCommand :: "transport \<Rightarrow> byte list \<Rightarrow> event list \<Rightarrow> bool \<times> event list" where
  "sendCommand tr cmd evs =
     (let evs1 = evs @ [Flush];
          written = tr evs1 cmd;
          evs2 = evs1 @ [Write cmd written]
      in if written \<noteq> length cmd then (False, evs2)
         else (True, evs2 @ [Flush, Delay 10]))"

definition activate_cmd :: "byte \<Rightarrow> byte list" where
  "activate_cmd can_id = [0x41, 0x54, 0x00, 0x07, 0xe8, can_id, 0x01, 0x00, 0x0d, 0x0a]"

definition activateMotor :: "transport \<Rightarrow> byte \<Rightarrow> event list \<Rightarrow> bool \<times> event list" where
  "activateMotor tr can_id evs =
     (let (result, evs1) = sendCommand tr (activate_cmd can_id) evs
      in (result, evs1 @ [Delay 200]))"

definition deactivate_cmd :: "byte \<Rightarrow> byte list" where
  "deactivate_cmd can_id = [0x41, 0x54, 0x00, 0x07, 0xe8, can_id, 0x00, 0x00, 0x0d, 0x0a]"

definition deactivateMotor :: "transport \<Rightarrow> byte \<Rightarrow> event list \<Rightarrow> bool \<times> event list" where
  "deactivateMotor tr can_id evs =
     (let (result, evs1) = sendCommand tr (deactivate_cmd can_id) evs
      in (result, evs1 @ [Delay 100]))"

definition loadParams_cmd :: "byte \<Rightarrow> byte list" where
  "loadParams_cmd can_id =
     [0x41, 0x54, 0x20, 0x07, 0xe8, can_id, 0x08, 0x00,
      0xc4, 0x00, 0x00, 0x00, 0x00, 0x00, 0x00, 0x0d, 0x0a]"

definition loadParams :: "transport \<Rightarrow> byte \<Rightarrow> event list \<Rightarrow> bool \<times> event list" where
  "loadParams tr can_id evs =
     (let (result, evs1) = sendCommand tr (loadParams_cmd can_id) evs
      in (result, evs1 @ [Delay 200]))"

text \<open>
  The speed code of \<^verbatim>\<open>moveJog\<close>. The sums \<^verbatim>\<open>0x8000 + (int16_t)(...)\<close> and
  \<^verbatim>\<open>0x7fff + (int16_t)(...)\<close> are computed in \<^verbatim>\<open>int\<close> and then stored in the
  \<^verbatim>\<open>int16_t speed_val\<close>, which keeps the low 16 bits.
\<close>

definition speed_val :: "f32 \<Rightarrow> 16 word option" where
  "speed_val speed =
     (if f32_eq speed (Finite 0) then Some 0x7fff
      else if f32_gt speed (Finite 0)
      then map_option (\<lambda>t. word_of_int (0x8000 + sint t)) (f32_to_i16 (f32_mul_lit speed 3283))
      else map_option (\<lambda>t. word_of_int (0x7fff + sint t)) (f32_to_i16 (f32_mul_lit speed 3283)))"

text \<open>
  \<^verbatim>\<open>(speed_val >> 8) & 0xFF\<close> and \<^verbatim>\<open>speed_val & 0xFF\<close>: the operand is promoted to the
  32-bit \<^verbatim>\<open>int\<close> with its sign, shifted arithmetically, masked and stored in a byte.
\<close>

definition high_byte :: "16 word \<Rightarrow> byte" where
  "high_byte v = ucast (signed_drop_bit 8 (scast v :: 32 word) AND 0xFF)"

definition low_byte :: "16 word \<Rightarrow> byte" where
  "low_byte v = ucast ((scast v :: 32 word) AND 0xFF)"

text \<open>
  The bytes \<^verbatim>\<open>moveJog\<close> stores in \<^verbatim>\<open>cmd[0 .. idx - 1]\<close>; \<^verbatim>\<open>cmd\<close> has room for 20, and
  \<^verbatim>\<open>idx\<close> ends at 17.
\<close>

definition moveJog_cmd :: "byte \<Rightarrow> f32 \<Rightarrow> byte \<Rightarrow> byte list option" where
  "moveJog_cmd can_id speed flag =
     map_option
       (\<lambda>v. [0x41, 0x54, 0x90, 0x07, 0xe8, can_id, 0x08, 0x05, 0x70, 0x00, 0x00, 0x07, flag,
             high_byte v, low_byte v, 0x0d, 0x0a])
       (speed_val speed)"

definition moveJog ::
  "transport \<Rightarrow> byte \<Rightarrow> f32 \<Rightarrow> byte \<Rightarrow> event list \<Rightarrow> (bool \<times> event list) option" where
  "moveJog tr can_id speed flag evs =
     map_option (\<lambda>cmd. sendCommand tr cmd evs) (moveJog_cmd can_id speed flag)"

definition stopMotor :: "transport \<Rightarrow> byte \<Rightarrow> event list \<Rightarrow> (bool \<times> event list) option" where
  "stopMotor tr can_id evs = moveJog tr can_id (Finite 0) 0 evs"

definition moveMotor ::
  "transport \<Rightarrow> byte \<Rightarrow> f32 \<Rightarrow> event list \<Rightarrow> (bool \<times> event list) option" where
  "moveMotor tr can_id speed evs =
     (let flag = (if f32_eq speed (Finite 0) then 0 else 1)
      in moveJog tr can_id speed flag evs)"

section \<open>The command bridge (main.cpp)\<close>

text \<open>
  \<^verbatim>\<open>twai_message_t\<close>, as far as the bridge reads it. The type comes with the CAN
  driver (\<^verbatim>\<open>driver/twai.h\<close>), not with the repository; there \<^verbatim>\<open>identifier\<close> is a
  \<^verbatim>\<open>uint32_t\<close>, \<^verbatim>\<open>data_length_code\<close> a \<^verbatim>\<open>uint8_t\<close> and \<^verbatim>\<open>data\<close> an array of eight
  \<^verbatim>\<open>uint8_t\<close>. The field \<^verbatim>\<open>identifier\<close> is called \<open>identifier32\<close> here.
\<close>

record twai_message =
  identifier32 :: "32 word"
  data_length_code :: "8 word"
  data :: "byte list"

definition can_motor_id :: "twai_message \<Rightarrow> byte" where
  "can_motor_id message = ucast (identifier32 message AND 0x0F)"

definition can_accepted :: "twai_message \<Rightarrow> bool" where
  "can_accepted message =
     (0x0C \<le> can_motor_id message \<and> can_motor_id message \<le> 0x0E
      \<and> 1 \<le> data_length_code message)"

definition can_speed_raw :: "twai_message \<Rightarrow> f32" where
  "can_speed_raw message = f32_div_lit (f32_of_u8 (data message ! 0)) 127"

definition clamp_speed :: "f32 \<Rightarrow> f32" where
  "clamp_speed speed =
     (let s1 = (if f32_gt speed (Finite 1) then Finite 1 else speed)
      in if f32_lt s1 (Finite (- 1)) then Finite (- 1) else s1)"

text \<open>The arguments the bridge hands to \<^verbatim>\<open>moveMotor\<close>, when it does.\<close>

definition can_command :: "twai_message \<Rightarrow> (byte \<times> f32) option" where
  "can_command message =
     (if can_accepted message
      then Some (can_motor_id message, clamp_speed (can_speed_raw message))
      else None)"

text \<open>
  \<^verbatim>\<open>processCANMessage\<close>, given what \<^verbatim>\<open>twai_receive\<close> delivered (\<open>None\<close>: nothing within
  the timeout). The result of \<^verbatim>\<open>moveMotor\<close> is dropped.
\<close>

definition processCANMessage ::
  "transport \<Rightarrow> twai_message option \<Rightarrow> event list \<Rightarrow> event list option" where
  "processCANMessage tr rx evs =
     (case rx of
        None \<Rightarrow> Some evs
      | Some message \<Rightarrow>
          (case can_command message of
             None \<Rightarrow> Some evs
           | Some (motor_id, speed) \<Rightarrow> map_option snd (moveMotor tr motor_id speed evs)))"

section \<open>Reference formulas\<close>

text \<open>
  The bytes between the data-length byte \<^verbatim>\<open>cmd[6]\<close> and the two terminator bytes
  (\<^verbatim>\<open>moveJog\<close> labels \<^verbatim>\<open>cmd[6]\<close> as the data length and stores eight bytes after it).
\<close>

definition payload :: "byte list \<Rightarrow> byte list" where
  "payload cmd = take (length cmd - 9) (drop 7 cmd)"

text \<open>
  The speed encoding rule in the words of the specification, with rounding to the
  nearest integer, as a number in \<open>0 .. 65535\<close>.
\<close>

definition spec_speed_code :: "rat \<Rightarrow> int" where
  "spec_speed_code speed =
     (if speed = 0 then 0x7fff
      else if 0 < speed then 0x8000 + round (speed * 3283)
      else 0x7fff + round (speed * 3283))"

section \<open>Transmission\<close>

lemma fst_sendCommand:
  "fst (sendCommand tr cmd evs) = (tr (evs @ [Flush]) cmd = length cmd)"
  by (simp add: sendCommand_def Let_def)

lemma write_calls_append: "write_calls (xs @ ys) = write_calls xs @ write_calls ys"
  by (simp add: write_calls_def)

lemma write_calls_sendCommand:
  "write_calls (snd (sendCommand tr cmd evs)) =
     write_calls evs @ [Write cmd (tr (evs @ [Flush]) cmd)]"
  by (simp add: sendCommand_def write_calls_def Let_def)

lemma sendCommand_short:
  "tr (evs @ [Flush]) cmd \<noteq> length cmd \<Longrightarrow>
     sendCommand tr cmd evs = (False, evs @ [Flush, Write cmd (tr (evs @ [Flush]) cmd)])"
  by (simp add: sendCommand_def Let_def)

lemma sendCommand_full:
  "tr (evs @ [Flush]) cmd = length cmd \<Longrightarrow>
     sendCommand tr cmd evs =
       (True, evs @ [Flush, Write cmd (length cmd), Flush, Delay 10])"
  by (simp add: sendCommand_def Let_def)

lemma write_calls_activateMotor:
  "write_calls (snd (activateMotor tr can_id evs)) =
     write_calls evs @ [Write (activate_cmd can_id) (tr (evs @ [Flush]) (activate_cmd can_id))]"
  by (simp add: activateMotor_def split_def Let_def write_calls_append write_calls_sendCommand)
     (simp add: write_calls_def)

lemma write_calls_deactivateMotor:
  "write_calls (snd (deactivateMotor tr can_id evs)) =
     write_calls evs
       @ [Write (deactivate_cmd can_id) (tr (evs @ [Flush]) (deactivate_cmd can_id))]"
  by (simp add: deactivateMotor_def split_def Let_def write_calls_append write_calls_sendCommand)
     (simp add: write_calls_def)

lemma write_calls_loadParams:
  "write_calls (snd (loadParams tr can_id evs)) =
     write_calls evs
       @ [Write (loadParams_cmd can_id) (tr (evs @ [Flush]) (loadParams_cmd can_id))]"
  by (simp add: loadParams_def split_def Let_def write_calls_append write_calls_sendCommand)
     (simp add: write_calls_def)

section \<open>The fixed frames\<close>

text \<open>
  C4: for every motor id, \<^verbatim>\<open>activateMotor\<close> and \<^verbatim>\<open>deactivateMotor\<close> hand one 10-byte
  frame to the link and \<^verbatim>\<open>loadParams\<close> one 17-byte frame, each made of the marker
  \<open>0x41 0x54\<close>, the op-code, the address \<open>0x07 0xe8\<close>, the motor id, the data length, the
  payload and the terminator \<open>0x0d 0x0a\<close>; the frames for two ids differ at most in
  byte 5, the motor id.
\<close>

theorem C4_fixed_frames:
  "activate_cmd can_id = [0x41, 0x54, 0x00, 0x07, 0xe8, can_id, 0x01, 0x00, 0x0d, 0x0a]
   \<and> deactivate_cmd can_id = [0x41, 0x54, 0x00, 0x07, 0xe8, can_id, 0x00, 0x00, 0x0d, 0x0a]
   \<and> loadParams_cmd can_id =
       [0x41, 0x54, 0x20, 0x07, 0xe8, can_id, 0x08, 0x00,
        0xc4, 0x00, 0x00, 0x00, 0x00, 0x00, 0x00, 0x0d, 0x0a]
   \<and> length (activate_cmd can_id) = 10
   \<and> length (deactivate_cmd can_id) = 10
   \<and> length (loadParams_cmd can_id) = 17
   \<and> activate_cmd can_id = (activate_cmd other_id)[5 := can_id]
   \<and> deactivate_cmd can_id = (deactivate_cmd other_id)[5 := can_id]
   \<and> loadParams_cmd can_id = (loadParams_cmd other_id)[5 := can_id]
   \<and> write_calls (snd (activateMotor tr can_id evs)) =
       write_calls evs
         @ [Write (activate_cmd can_id) (tr (evs @ [Flush]) (activate_cmd can_id))]
   \<and> write_calls (snd (deactivateMotor tr can_id evs)) =
       write_calls evs
         @ [Write (deactivate_cmd can_id) (tr (evs @ [Flush]) (deactivate_cmd can_id))]
   \<and> write_calls (snd (loadParams tr can_id evs)) =
       write_calls evs
         @ [Write (loadParams_cmd can_id) (tr (evs @ [Flush]) (loadParams_cmd can_id))]"
proof -
  have frames:
    "activate_cmd can_id = [0x41, 0x54, 0x00, 0x07, 0xe8, can_id, 0x01, 0x00, 0x0d, 0x0a]"
    "deactivate_cmd can_id = [0x41, 0x54, 0x00, 0x07, 0xe8, can_id, 0x00, 0x00, 0x0d, 0x0a]"
    "loadParams_cmd can_id =
       [0x41, 0x54, 0x20, 0x07, 0xe8, can_id, 0x08, 0x00,
        0xc4, 0x00, 0x00, 0x00, 0x00, 0x00, 0x00, 0x0d, 0x0a]"
    by (simp_all add: activate_cmd_def deactivate_cmd_def loadParams_cmd_def)
  have lengths:
    "length (activate_cmd can_id) = 10" "length (deactivate_cmd can_id) = 10"
    "length (loadParams_cmd can_id) = 17"
    by (simp_all add: activate_cmd_def deactivate_cmd_def loadParams_cmd_def)
  have only_id:
    "activate_cmd can_id = (activate_cmd other_id)[5 := can_id]"
    "deactivate_cmd can_id = (deactivate_cmd other_id)[5 := can_id]"
    "loadParams_cmd can_id = (loadParams_cmd other_id)[5 := can_id]"
    by (simp_all add: activate_cmd_def deactivate_cmd_def loadParams_cmd_def)
  from frames lengths only_id show ?thesis
    by (simp only: write_calls_activateMotor write_calls_deactivateMotor
        write_calls_loadParams simp_thms)
qed

text \<open>
  C5, as stated, at motor id \<open>0x0C\<close>: the eight payload bytes of the \<^verbatim>\<open>loadParams\<close>
  frame are \<open>00 c4 00 00 00 00 00 00\<close>, so the seven bytes after the first are not
  all zero.
\<close>

theorem C5_payload_counterexample:
  "payload (loadParams_cmd 0x0C) = [0x00, 0xc4, 0x00, 0x00, 0x00, 0x00, 0x00, 0x00]
   \<and> tl (payload (loadParams_cmd 0x0C)) \<noteq> [0x00, 0x00, 0x00, 0x00, 0x00, 0x00, 0x00]"
  by (simp add: payload_def loadParams_cmd_def)

text \<open>
  C5, amended: for every motor id the \<^verbatim>\<open>loadParams\<close> frame has 17 bytes, and its
  8-byte payload is a zero byte, then \<open>0xc4\<close>, then six zero bytes.
\<close>

theorem C5_loadParams_payload:
  "length (loadParams_cmd can_id) = 17
   \<and> length (payload (loadParams_cmd can_id)) = 8
   \<and> loadParams_cmd can_id ! 6 = 0x08
   \<and> payload (loadParams_cmd can_id) = [0x00, 0xc4, 0x00, 0x00, 0x00, 0x00, 0x00, 0x00]"
  by (simp add: payload_def loadParams_cmd_def)

text \<open>
  C6: when the link reports a number of accepted bytes other than the frame length,
  \<^verbatim>\<open>sendCommand\<close> and every operation built on it return \<^verbatim>\<open>false\<close>, and the trace
  shows the one call of \<^verbatim>\<open>write\<close> for the frame and no further one; when the link
  reports the frame length, \<^verbatim>\<open>sendCommand\<close> returns \<^verbatim>\<open>true\<close>, again after one call.
\<close>

theorem C6_short_write_fails:
  "(tr (evs @ [Flush]) cmd \<noteq> length cmd \<longrightarrow>
      sendCommand tr cmd evs = (False, evs @ [Flush, Write cmd (tr (evs @ [Flush]) cmd)])
      \<and> write_calls (snd (sendCommand tr cmd evs)) =
          write_calls evs @ [Write cmd (tr (evs @ [Flush]) cmd)])
   \<and> (tr (evs @ [Flush]) cmd = length cmd \<longrightarrow>
      sendCommand tr cmd evs = (True, evs @ [Flush, Write cmd (length cmd), Flush, Delay 10])
      \<and> write_calls (snd (sendCommand tr cmd evs)) = write_calls evs @ [Write cmd (length cmd)])
   \<and> (tr (evs @ [Flush]) (activate_cmd can_id) \<noteq> length (activate_cmd can_id) \<longrightarrow>
      \<not> fst (activateMotor tr can_id evs)
      \<and> length (write_calls (snd (activateMotor tr can_id evs)))
          = Suc (length (write_calls evs)))
   \<and> (tr (evs @ [Flush]) (deactivate_cmd can_id) \<noteq> length (deactivate_cmd can_id) \<longrightarrow>
      \<not> fst (deactivateMotor tr can_id evs)
      \<and> length (write_calls (snd (deactivateMotor tr can_id evs)))
          = Suc (length (write_calls evs)))
   \<and> (tr (evs @ [Flush]) (loadParams_cmd can_id) \<noteq> length (loadParams_cmd can_id) \<longrightarrow>
      \<not> fst (loadParams tr can_id evs)
      \<and> length (write_calls (snd (loadParams tr can_id evs)))
          = Suc (length (write_calls evs)))
   \<and> (moveJog_cmd can_id speed flag = Some cmd \<and> tr (evs @ [Flush]) cmd \<noteq> length cmd \<longrightarrow>
      moveJog tr can_id speed flag evs
        = Some (False, evs @ [Flush, Write cmd (tr (evs @ [Flush]) cmd)]))"
proof (intro conjI impI)
  assume short: "tr (evs @ [Flush]) cmd \<noteq> length cmd"
  then show "sendCommand tr cmd evs = (False, evs @ [Flush, Write cmd (tr (evs @ [Flush]) cmd)])"
    by (rule sendCommand_short)
  show "write_calls (snd (sendCommand tr cmd evs)) =
          write_calls evs @ [Write cmd (tr (evs @ [Flush]) cmd)]"
    by (rule write_calls_sendCommand)
next
  assume full: "tr (evs @ [Flush]) cmd = length cmd"
  then show "sendCommand tr cmd evs
      = (True, evs @ [Flush, Write cmd (length cmd), Flush, Delay 10])"
    by (rule sendCommand_full)
  from full show "write_calls (snd (sendCommand tr cmd evs))
      = write_calls evs @ [Write cmd (length cmd)]"
    by (simp add: write_calls_sendCommand)
next
  assume "tr (evs @ [Flush]) (activate_cmd can_id) \<noteq> length (activate_cmd can_id)"
  then show "\<not> fst (activateMotor tr can_id evs)"
    by (simp add: activateMotor_def split_def Let_def fst_sendCommand)
  show "length (write_calls (snd (activateMotor tr can_id evs))) = Suc (length (write_calls evs))"
    by (simp add: write_calls_activateMotor)
next
  assume "tr (evs @ [Flush]) (deactivate_cmd can_id) \<noteq> length (deactivate_cmd can_id)"
  then show "\<not> fst (deactivateMotor tr can_id evs)"
    by (simp add: deactivateMotor_def split_def Let_def fst_sendCommand)
  show "length (write_calls (snd (deactivateMotor tr can_id evs)))
      = Suc (length (write_calls evs))"
    by (simp add: write_calls_deactivateMotor)
next
  assume "tr (evs @ [Flush]) (loadParams_cmd can_id) \<noteq> length (loadParams_cmd can_id)"
  then show "\<not> fst (loadParams tr can_id evs)"
    by (simp add: loadParams_def split_def Let_def fst_sendCommand)
  show "length (write_calls (snd (loadParams tr can_id evs))) = Suc (length (write_calls evs))"
    by (simp add: write_calls_loadParams)
next
  assume "moveJog_cmd can_id speed flag = Some cmd \<and> tr (evs @ [Flush]) cmd \<noteq> length cmd"
  then show "moveJog tr can_id speed flag evs
      = Some (False, evs @ [Flush, Write cmd (tr (evs @ [Flush]) cmd)])"
    by (simp add: moveJog_def sendCommand_short)
qed

lemma high_low_7fff: "high_byte 0x7fff = 0x7f" "low_byte 0x7fff = 0xff"
  by (simp_all add: high_byte_def low_byte_def)

lemma stop_frame:
  "moveJog_cmd can_id (Finite 0) flag =
     Some [0x41, 0x54, 0x90, 0x07, 0xe8, can_id, 0x08, 0x05, 0x70, 0x00, 0x00, 0x07, flag,
           0x7f, 0xff, 0x0d, 0x0a]"
  by (simp add: moveJog_cmd_def speed_val_def high_low_7fff)

theorem C6_short_write_witness:
  "sendCommand (\<lambda>evs cmd. length cmd - 1) (activate_cmd 0x0C) []
     = (False, [Flush, Write (activate_cmd 0x0C) 9])
   \<and> \<not> fst (activateMotor (\<lambda>evs cmd. length cmd - 1) 0x0C [])
   \<and> \<not> fst (deactivateMotor (\<lambda>evs cmd. length cmd - 1) 0x0C [])
   \<and> \<not> fst (loadParams (\<lambda>evs cmd. length cmd - 1) 0x0C [])
   \<and> moveJog (\<lambda>evs cmd. length cmd - 1) 0x0C (Finite 0) 0 []
     = Some (False, [Flush, Write [0x41, 0x54, 0x90, 0x07, 0xe8, 0x0C, 0x08, 0x05, 0x70, 0x00,
                                   0x00, 0x07, 0x00, 0x7f, 0xff, 0x0d, 0x0a] 16])
   \<and> sendCommand (\<lambda>evs cmd. length cmd) (activate_cmd 0x0C) []
     = (True, [Flush, Write (activate_cmd 0x0C) 10, Flush, Delay 10])"
  using
    C6_short_write_fails [of "\<lambda>evs cmd. length cmd - 1" "[]" "activate_cmd 0x0C" "0x0C"
      "Finite 0" 0]
    C6_short_write_fails [of "\<lambda>evs cmd. length cmd - 1" "[]"
      "[0x41, 0x54, 0x90, 0x07, 0xe8, 0x0C, 0x08, 0x05, 0x70, 0x00, 0x00, 0x07, 0x00,
        0x7f, 0xff, 0x0d, 0x0a]" "0x0C" "Finite 0" 0]
    C6_short_write_fails [of "\<lambda>evs cmd. length cmd" "[]" "activate_cmd 0x0C" "0x0C"
      "Finite 0" 0]
  by (simp add: activate_cmd_def deactivate_cmd_def loadParams_cmd_def stop_frame)

section \<open>The convenience operations\<close>

text \<open>
  C9: \<^verbatim>\<open>stopMotor(id)\<close> is \<^verbatim>\<open>moveJog(id, 0.0, 0)\<close>, and \<^verbatim>\<open>moveMotor(id, speed)\<close> is
  \<^verbatim>\<open>moveJog(id, speed, flag)\<close> with flag 0 for a speed equal to zero and 1 otherwise:
  the same result and the same trace, hence the same frame; so \<^verbatim>\<open>moveMotor(id, 0.0)\<close>
  and \<^verbatim>\<open>stopMotor(id)\<close> coincide, and the frame they send is the stop frame.
\<close>

theorem C9_convenience_operations:
  "stopMotor tr can_id evs = moveJog tr can_id (Finite 0) 0 evs
   \<and> moveMotor tr can_id speed evs
       = moveJog tr can_id speed (if f32_eq speed (Finite 0) then 0 else 1) evs
   \<and> moveMotor tr can_id (Finite 0) evs = stopMotor tr can_id evs
   \<and> stopMotor tr can_id evs
       = Some (sendCommand tr
           [0x41, 0x54, 0x90, 0x07, 0xe8, can_id, 0x08, 0x05, 0x70, 0x00, 0x00, 0x07, 0x00,
            0x7f, 0xff, 0x0d, 0x0a] evs)"
  by (simp add: stopMotor_def moveMotor_def moveJog_def stop_frame)

section \<open>Frames the bridge ignores\<close>

lemma nibble_id:
  "(0x0C \<le> (ucast (x AND 0x0F :: 32 word) :: byte) \<and> (ucast (x AND 0x0F) :: byte) \<le> 0x0E)
     \<longleftrightarrow> x AND 0x0F \<in> {0x0C, 0x0D, 0x0E}"
proof -
  have "unat (x AND 0x0F) \<le> unat (0x0F :: 32 word)"
    by (rule word_and_le1 [THEN word_le_nat_alt [THEN iffD1]])
  then have b: "unat (x AND 0x0F) < 16" by simp
  have u: "unat (ucast (x AND 0x0F) :: byte) = unat (x AND 0x0F)"
    using b by (simp add: unsigned_ucast_eq take_bit_eq_mod)
  have "x AND 0x0F \<in> {0x0C, 0x0D, 0x0E} \<longleftrightarrow> unat (x AND 0x0F) \<in> {12, 13, 14}"
    by (auto simp add: word_unat_eq_iff)
  also have "\<dots> \<longleftrightarrow> 12 \<le> unat (x AND 0x0F) \<and> unat (x AND 0x0F) \<le> 14"
    by auto
  finally show ?thesis
    by (simp add: word_le_nat_alt u)
qed

lemma can_accepted_iff:
  "can_accepted message \<longleftrightarrow>
     identifier32 message AND 0x0F \<in> {0x0C, 0x0D, 0x0E} \<and> data_length_code message \<noteq> 0"
proof -
  have "1 \<le> data_length_code message \<longleftrightarrow> data_length_code message \<noteq> 0"
    by (simp add: word_le_nat_alt unat_eq_0 Suc_le_eq unat_gt_0)
  with nibble_id [of "identifier32 message"] show ?thesis
    by (auto simp add: can_accepted_def can_motor_id_def)
qed

lemma ignored_frame:
  "\<not> can_accepted message \<Longrightarrow>
     can_command message = None \<and> processCANMessage tr (Some message) evs = Some evs"
  by (simp add: can_command_def processCANMessage_def)

text \<open>
  C8: a received frame whose identifier has a low nibble other than \<open>0x0C\<close>, \<open>0x0D\<close>,
  \<open>0x0E\<close>, or whose length code is zero, yields no command for the encoder and leaves
  the trace of the serial link as it was; \<^verbatim>\<open>processCANMessage\<close> returns nothing, so no
  error is reported. Identifier \<open>0x05\<close> is such a frame, whatever its payload.
\<close>

theorem C8_foreign_frames_ignored:
  "(identifier32 message AND 0x0F \<notin> {0x0C, 0x0D, 0x0E} \<or> data_length_code message = 0
      \<longrightarrow> can_command message = None
          \<and> processCANMessage tr (Some message) evs = Some evs)
   \<and> (identifier32 message = 0x05
      \<longrightarrow> can_command message = None
          \<and> processCANMessage tr (Some message) evs = Some evs)"
proof -
  have nibble: "identifier32 message AND 0x0F \<notin> {0x0C, 0x0D, 0x0E}
      \<or> data_length_code message = 0 \<Longrightarrow> \<not> can_accepted message"
    by (auto simp add: can_accepted_iff)
  have five: "identifier32 message = 0x05 \<Longrightarrow> \<not> can_accepted message"
    by (simp add: can_accepted_iff)
  from nibble five ignored_frame [of message tr evs] show ?thesis
    by blast
qed

theorem C8_foreign_frames_witness:
  "can_command \<lparr>identifier32 = 0x05, data_length_code = 1,
      data = [0x40, 0, 0, 0, 0, 0, 0, 0]\<rparr> = None
   \<and> processCANMessage (\<lambda>evs cmd. length cmd)
       (Some \<lparr>identifier32 = 0x05, data_length_code = 1,
          data = [0x40, 0, 0, 0, 0, 0, 0, 0]\<rparr>) [] = Some []
   \<and> can_command \<lparr>identifier32 = 0x0C, data_length_code = 0,
      data = [0, 0, 0, 0, 0, 0, 0, 0]\<rparr> = None
   \<and> processCANMessage (\<lambda>evs cmd. length cmd)
       (Some \<lparr>identifier32 = 0x0C, data_length_code = 0,
          data = [0, 0, 0, 0, 0, 0, 0, 0]\<rparr>) [] = Some []"
  using
    C8_foreign_frames_ignored [of "\<lparr>identifier32 = 0x05, data_length_code = 1,
      data = [0x40, 0, 0, 0, 0, 0, 0, 0]\<rparr>" "\<lambda>evs cmd. length cmd" "[]"]
    C8_foreign_frames_ignored [of "\<lparr>identifier32 = 0x0C, data_length_code = 0,
      data = [0, 0, 0, 0, 0, 0, 0, 0]\<rparr>" "\<lambda>evs cmd. length cmd" "[]"]
  by simp

section \<open>Rounding is monotone\<close>

lemma rne_lower: "\<lfloor>x\<rfloor> \<le> rne x"
  by (simp add: rne_def Let_def)

lemma rne_upper: "rne x \<le> \<lfloor>x\<rfloor> + 1"
  by (simp add: rne_def Let_def)

lemma rne_of_int: "rne (of_int n) = n"
  by (simp add: rne_def Let_def)

lemma rne_mono: "x \<le> y \<Longrightarrow> rne x \<le> rne y"
proof -
  assume xy: "x \<le> y"
  then have fl: "\<lfloor>x\<rfloor> \<le> \<lfloor>y\<rfloor>" by (rule floor_mono)
  show ?thesis
  proof (cases "\<lfloor>x\<rfloor> = \<lfloor>y\<rfloor>")
    case True
    with xy have "x - of_int \<lfloor>x\<rfloor> \<le> y - of_int \<lfloor>y\<rfloor>" by simp
    with True show ?thesis by (auto simp add: rne_def Let_def)
  next
    case False
    with fl have "\<lfloor>x\<rfloor> + 1 \<le> \<lfloor>y\<rfloor>" by simp
    with rne_upper[of x] rne_lower[of y] show ?thesis by linarith
  qed
qed

lemma ulp_search_lower: "- 149 \<le> ulp_search n a"
  by (induction n) auto

lemma ulp_search_upper: "ulp_search n a \<le> int n - 149"
  by (induction n) auto

lemma ulp_search_reached: "ulp_search n a \<noteq> - 149 \<Longrightarrow> 2 powi (ulp_search n a + 23) \<le> a"
  by (induction n) (auto split: if_splits)

lemma ulp_search_below:
  "ulp_search n a < k \<Longrightarrow> k \<le> int n - 149 \<Longrightarrow> a < 2 powi (k + 23)"
proof (induction n)
  case 0
  then show ?case using ulp_search_lower[of 0 a] by simp
next
  case (Suc n)
  show ?case
  proof (cases "2 powi (int n - 125) \<le> a")
    case True
    with Suc.prems show ?thesis by simp
  next
    case False
    show ?thesis
    proof (cases "k = int n - 148")
      case True
      then have e: "k + 23 = int n - 125" by simp
      show ?thesis unfolding e using False by simp
    next
      case False2: False
      with Suc.prems False have "ulp_search n a < k" "k \<le> int n - 149" by simp_all
      then show ?thesis by (rule Suc.IH)
    qed
  qed
qed

lemma ulp_search_mono: "a \<le> b \<Longrightarrow> ulp_search n a \<le> ulp_search n b"
proof (induction n)
  case 0
  show ?case by simp
next
  case (Suc n)
  from ulp_search_upper[of n a] have "ulp_search n a \<le> int n - 148" by linarith
  with Suc show ?case by auto
qed

lemma f32_ulp_pos: "0 < f32_ulp a"
  by (simp add: f32_ulp_def)

lemma powi_ratio_int:
  assumes "j \<le> k"
  shows "(2::rat) powi k / 2 powi j = of_int (2 ^ nat (k - j))"
proof -
  have "(2::rat) powi k / 2 powi j = 2 powi (k - j)"
    by (simp add: power_int_diff)
  also have "\<dots> = 2 ^ nat (k - j)"
    using assms by (simp add: power_int_def)
  finally show ?thesis by simp
qed

lemma round_mag_le_grid:
  assumes "a \<le> 2 powi k" and "ulp_search 253 a \<le> k"
  shows "round_mag a \<le> 2 powi k"
proof -
  let ?j = "ulp_search 253 a"
  have "a / 2 powi ?j \<le> 2 powi k / 2 powi ?j"
    using assms(1) by (simp add: divide_right_mono)
  then have "rne (a / 2 powi ?j) \<le> rne (2 powi k / 2 powi ?j)"
    by (rule rne_mono)
  also have "\<dots> = 2 ^ nat (k - ?j)"
    using assms(2) by (simp only: powi_ratio_int rne_of_int)
  finally have "(of_int (rne (a / 2 powi ?j)) :: rat) \<le> of_int (2 ^ nat (k - ?j))"
    by (simp only: of_int_le_iff)
  then have "of_int (rne (a / 2 powi ?j)) * 2 powi ?j \<le> (of_int (2 ^ nat (k - ?j)) :: rat) * 2 powi ?j"
    by (rule mult_right_mono) simp
  also have "(of_int (2 ^ nat (k - ?j)) :: rat) * 2 powi ?j = 2 powi k"
    using powi_ratio_int[OF assms(2)] by (simp add: field_simps)
  finally show ?thesis by (simp add: round_mag_def f32_ulp_def)
qed

lemma round_mag_ge_grid:
  assumes "2 powi k \<le> a" and "ulp_search 253 a \<le> k"
  shows "2 powi k \<le> round_mag a"
proof -
  let ?j = "ulp_search 253 a"
  have "2 powi k / 2 powi ?j \<le> a / 2 powi ?j"
    using assms(1) by (simp add: divide_right_mono)
  then have "rne (2 powi k / 2 powi ?j) \<le> rne (a / 2 powi ?j)"
    by (rule rne_mono)
  moreover have "rne (2 powi k / 2 powi ?j) = 2 ^ nat (k - ?j)"
    using assms(2) by (simp only: powi_ratio_int rne_of_int)
  ultimately have "(of_int (2 ^ nat (k - ?j)) :: rat) \<le> of_int (rne (a / 2 powi ?j))"
    by (simp only: of_int_le_iff)
  then have *: "(of_int (2 ^ nat (k - ?j)) :: rat) * 2 powi ?j \<le> of_int (rne (a / 2 powi ?j)) * 2 powi ?j"
    by (rule mult_right_mono) simp
  have "2 powi k = (of_int (2 ^ nat (k - ?j)) :: rat) * 2 powi ?j"
    using powi_ratio_int[OF assms(2)] by (simp add: field_simps)
  also note *
  finally show ?thesis by (simp add: round_mag_def f32_ulp_def)
qed

lemma round_mag_mono:
  assumes "a \<le> b"
  shows "round_mag a \<le> round_mag b"
proof -
  let ?ka = "ulp_search 253 a" and ?kb = "ulp_search 253 b"
  have le: "?ka \<le> ?kb" using assms by (rule ulp_search_mono)
  show ?thesis
  proof (cases "?ka = ?kb")
    case True
    have "a / 2 powi ?kb \<le> b / 2 powi ?kb"
      using assms by (simp add: divide_right_mono)
    then have "rne (a / 2 powi ?kb) \<le> rne (b / 2 powi ?kb)" by (rule rne_mono)
    then have "(of_int (rne (a / 2 powi ?kb)) :: rat) \<le> of_int (rne (b / 2 powi ?kb))"
      by (simp only: of_int_le_iff)
    then have "of_int (rne (a / 2 powi ?kb)) * 2 powi ?kb \<le> (of_int (rne (b / 2 powi ?kb)) :: rat) * 2 powi ?kb"
      by (rule mult_right_mono) simp
    then show ?thesis by (simp add: round_mag_def f32_ulp_def True)
  next
    case False
    with le have lt: "?ka < ?kb" by simp
    have "- 149 \<le> ?ka" by (rule ulp_search_lower)
    with lt have "?kb \<noteq> - 149" by simp
    then have gb: "2 powi (?kb + 23) \<le> b" by (rule ulp_search_reached)
    have "?kb \<le> int 253 - 149" by (rule ulp_search_upper)
    with lt have ag: "a < 2 powi (?kb + 23)" by (rule ulp_search_below)
    have "round_mag a \<le> 2 powi (?kb + 23)"
      using ag lt by (intro round_mag_le_grid) simp_all
    also have "\<dots> \<le> round_mag b"
      using gb by (intro round_mag_ge_grid) simp_all
    finally show ?thesis .
  qed
qed

lemma round_mag_nonneg: "0 \<le> a \<Longrightarrow> 0 \<le> round_mag a"
proof -
  assume "0 \<le> a"
  then have "0 \<le> a / f32_ulp a" using f32_ulp_pos[of a] by simp
  then have "rne 0 \<le> rne (a / f32_ulp a)" by (rule rne_mono)
  then have "0 \<le> rne (a / f32_ulp a)" using rne_of_int[of 0] by simp
  then show ?thesis using f32_ulp_pos[of a] by (simp add: round_mag_def)
qed

section \<open>The speed code on the range of the encoder\<close>

lemma mask8: "(0xFF :: 32 word) = mask 8"
  by (simp add: mask_eq_exp_minus_1)

lemma high_byte_alt: "high_byte v = ucast (drop_bit 8 v)"
  unfolding high_byte_def mask8
  by (rule bit_word_eqI) (auto simp add: bit_simps)

lemma low_byte_alt: "low_byte v = ucast v"
  unfolding low_byte_def mask8
  by (rule bit_word_eqI) (auto simp add: bit_simps)

lemma bytes_big_endian: "unat (high_byte v) * 256 + unat (low_byte v) = unat v"
proof -
  have "unat v < 65536" using unsigned_less[of v, where 'a=nat] by simp
  then have "unat v div 256 < 256" by simp
  then show ?thesis
  unfolding high_byte_alt low_byte_alt
  by (simp add: unsigned_ucast_eq unat_drop_bit_eq take_bit_eq_mod drop_bit_eq_div unat_div)
qed

lemma round_mag_3283: "round_mag 3283 = 3283"
  by code_simp

lemma round_mag_scaled:
  assumes "0 \<le> a" and "a \<le> 3283"
  shows "0 \<le> round_mag a" and "round_mag a \<le> 3283"
  using round_mag_nonneg[OF assms(1)] round_mag_mono[OF assms(2)]
  by (simp_all add: round_mag_3283)

lemma sint_small: "- 32768 \<le> t \<Longrightarrow> t \<le> 32767 \<Longrightarrow> sint (word_of_int t :: 16 word) = t"
  by (simp add: signed_of_int signed_take_bit_int_eq_self)

lemma uint_small: "0 \<le> t \<Longrightarrow> t < 65536 \<Longrightarrow> uint (word_of_int t :: 16 word) = t"
  by (simp add: uint_word_of_int_eq take_bit_int_eq_self)

lemma speed_val_pos:
  assumes "0 < q" and "q \<le> 1"
  shows "speed_val (Finite q) = Some (word_of_int (0x8000 + \<lfloor>round_mag (q * 3283)\<rfloor>))"
    and "f32_mul_lit (Finite q) 3283 = Finite (round_mag (q * 3283))"
proof -
  let ?r = "round_mag (q * 3283)"
  have a: "0 \<le> q * 3283" "q * 3283 \<le> 3283" using assms by simp_all
  have r: "0 \<le> ?r" "?r \<le> 3283" using round_mag_scaled[OF a] by simp_all
  have "?r < 2 ^ 128" using r(2) by simp
  with a(1) show m: "f32_mul_lit (Finite q) 3283 = Finite ?r"
    by (simp add: f32_round_def Let_def)
  have fl: "0 \<le> \<lfloor>?r\<rfloor>" "\<lfloor>?r\<rfloor> \<le> 3283" using r by (simp_all add: floor_le_iff)
  then have t: "f32_to_i16 (Finite ?r) = Some (word_of_int \<lfloor>?r\<rfloor>)"
    using r(1) by (simp add: trunc_def)
  have "sint (word_of_int \<lfloor>?r\<rfloor> :: 16 word) = \<lfloor>?r\<rfloor>"
    using fl by (intro sint_small) simp_all
  with assms(1) m t show "speed_val (Finite q) = Some (word_of_int (0x8000 + \<lfloor>round_mag (q * 3283)\<rfloor>))"
    by (simp add: speed_val_def f32_gt_def)
qed

lemma speed_val_neg:
  assumes "q < 0" and "- 1 \<le> q"
  shows "speed_val (Finite q) = Some (word_of_int (0x7fff - \<lfloor>round_mag (- (q * 3283))\<rfloor>))"
    and "f32_mul_lit (Finite q) 3283 = Finite (- round_mag (- (q * 3283)))"
proof -
  let ?r = "round_mag (- (q * 3283))"
  define n where "n = \<lfloor>?r\<rfloor>"
  have a: "0 \<le> - (q * 3283)" "- (q * 3283) \<le> 3283" using assms by simp_all
  have r: "0 \<le> ?r" "?r \<le> 3283" using round_mag_scaled[OF a] by simp_all
  have "?r < 2 ^ 128" using r(2) by simp
  with assms(1) show m: "f32_mul_lit (Finite q) 3283 = Finite (- ?r)"
    by (simp add: f32_round_def Let_def mult_less_0_iff)
  have n: "0 \<le> n" "n \<le> 3283" using r by (simp_all add: n_def floor_le_iff)
  have tr: "trunc (- ?r) = - n"
    using r(1) by (auto simp add: trunc_def ceiling_def n_def)
  have t: "f32_to_i16 (Finite (- ?r)) = Some (word_of_int (- n))"
    using n by (simp add: tr)
  have "sint (word_of_int (- n) :: 16 word) = - n"
    using n by (intro sint_small) simp_all
  with assms(1) m t have "speed_val (Finite q) = Some (word_of_int (0x7fff - n))"
    by (simp add: speed_val_def f32_gt_def)
  then show "speed_val (Finite q) = Some (word_of_int (0x7fff - \<lfloor>round_mag (- (q * 3283))\<rfloor>))"
    by (simp only: n_def)
qed

lemma speed_val_zero: "speed_val (Finite 0) = Some 0x7fff"
  by (simp add: speed_val_def)

lemma sint_big:
  assumes "32768 \<le> t" and "t < 65536"
  shows "sint (word_of_int t :: 16 word) = t - 65536"
proof -
  have "(word_of_int t :: 16 word) = word_of_int (t - 65536)"
    by (simp add: word_of_int_eq_iff take_bit_eq_mod)
  moreover have "sint (word_of_int (t - 65536) :: 16 word) = t - 65536"
    using assms by (intro sint_small) simp_all
  ultimately show ?thesis by (simp only:)
qed

lemma offset_bounds:
  assumes "0 \<le> a" and "a \<le> 3283"
  shows "0 \<le> \<lfloor>round_mag a\<rfloor>" and "\<lfloor>round_mag a\<rfloor> \<le> 3283"
  using round_mag_scaled[OF assms] by (simp_all add: floor_le_iff)

lemma offset_mono: "a \<le> b \<Longrightarrow> \<lfloor>round_mag a\<rfloor> \<le> \<lfloor>round_mag b\<rfloor>"
  by (intro floor_mono round_mag_mono)

lemma speed_val_one: "speed_val (Finite 1) = Some 0x8CD3"
  using speed_val_pos(1)[of 1] by (simp add: round_mag_3283)

lemma speed_val_minus_one: "speed_val (Finite (- 1)) = Some 0x732C"
  using speed_val_neg(1)[of "- 1"] by (simp add: round_mag_3283)

lemma trunc_nonneg: "0 \<le> r \<Longrightarrow> trunc r = \<lfloor>r\<rfloor>"
  by (simp add: trunc_def)

lemma trunc_neg: "0 \<le> r \<Longrightarrow> trunc (- r) = - \<lfloor>r\<rfloor>"
  by (auto simp add: trunc_def ceiling_def)

lemma moveJog_cmd_Some:
  "speed_val speed = Some v \<Longrightarrow>
   moveJog_cmd can_id speed flag =
     Some [0x41, 0x54, 0x90, 0x07, 0xe8, can_id, 0x08, 0x05, 0x70, 0x00, 0x00, 0x07, flag,
           high_byte v, low_byte v, 0x0d, 0x0a]"
  by (simp add: moveJog_cmd_def)

lemma full_speed_bytes:
  "high_byte 0x8CD3 = 0x8C" "low_byte 0x8CD3 = 0xD3"
  "high_byte 0x732C = 0x73" "low_byte 0x732C = 0x2C"
  by (simp_all add: high_byte_alt low_byte_alt)

lemma full_speed_frames:
  "moveJog_cmd can_id (Finite 1) flag =
     Some [0x41, 0x54, 0x90, 0x07, 0xe8, can_id, 0x08, 0x05, 0x70, 0x00, 0x00, 0x07, flag,
           0x8C, 0xD3, 0x0d, 0x0a]"
  "moveJog_cmd can_id (Finite (- 1)) flag =
     Some [0x41, 0x54, 0x90, 0x07, 0xe8, can_id, 0x08, 0x05, 0x70, 0x00, 0x00, 0x07, flag,
           0x73, 0x2C, 0x0d, 0x0a]"
  using moveJog_cmd_Some [OF speed_val_one, of can_id flag]
    moveJog_cmd_Some [OF speed_val_minus_one, of can_id flag]
  by (simp_all only: full_speed_bytes)

section \<open>Full speed\<close>

text \<open>
  C2, as stated: the speed code of \<^verbatim>\<open>moveJog(id, 1.0, 1)\<close> is not \<open>0x80CD\<close>, and the
  one of \<^verbatim>\<open>moveJog(id, -1.0, 1)\<close> is not \<open>0x7294\<close>.
\<close>

theorem C2_full_speed_counterexample:
  "speed_val (Finite 1) \<noteq> Some 0x80CD \<and> speed_val (Finite (- 1)) \<noteq> Some 0x7294"
  by (simp add: speed_val_one speed_val_minus_one)

text \<open>
  C2, amended: for every motor id, \<^verbatim>\<open>moveJog(id, 1.0, 1)\<close> encodes the speed code
  \<open>0x8CD3 = 0x8000 + 3283\<close> and \<^verbatim>\<open>moveJog(id, -1.0, 1)\<close> the speed code
  \<open>0x732C = 0x7fff - 3283\<close>; the frame carries the code high byte first in its bytes 13
  and 14, the last two before the terminator.
\<close>

theorem C2_full_speed_codes:
  "speed_val (Finite 1) = Some 0x8CD3
   \<and> speed_val (Finite (- 1)) = Some 0x732C
   \<and> (0x8CD3 :: 16 word) = 0x8000 + 3283
   \<and> (0x732C :: 16 word) = 0x7fff - 3283
   \<and> moveJog_cmd can_id (Finite 1) 1 =
       Some [0x41, 0x54, 0x90, 0x07, 0xe8, can_id, 0x08, 0x05, 0x70, 0x00, 0x00, 0x07, 0x01,
             0x8C, 0xD3, 0x0d, 0x0a]
   \<and> moveJog_cmd can_id (Finite (- 1)) 1 =
       Some [0x41, 0x54, 0x90, 0x07, 0xe8, can_id, 0x08, 0x05, 0x70, 0x00, 0x00, 0x07, 0x01,
             0x73, 0x2C, 0x0d, 0x0a]
   \<and> moveJog tr can_id (Finite 1) 1 evs =
       Some (sendCommand tr
         [0x41, 0x54, 0x90, 0x07, 0xe8, can_id, 0x08, 0x05, 0x70, 0x00, 0x00, 0x07, 0x01,
          0x8C, 0xD3, 0x0d, 0x0a] evs)
   \<and> moveJog tr can_id (Finite (- 1)) 1 evs =
       Some (sendCommand tr
         [0x41, 0x54, 0x90, 0x07, 0xe8, can_id, 0x08, 0x05, 0x70, 0x00, 0x00, 0x07, 0x01,
          0x73, 0x2C, 0x0d, 0x0a] evs)"
  by (simp add: speed_val_one speed_val_minus_one full_speed_frames moveJog_def)

section \<open>The three branches of the speed code\<close>

text \<open>
  C3, as stated, at speed \<open>0.25\<close>: the product \<open>0.25 \<times> 3283 = 820.75\<close> rounds to
  821, so the rule gives \<open>0x8000 + 821 = 0x8335\<close>; \<^verbatim>\<open>moveJog\<close> encodes \<open>0x8334\<close>.
\<close>

theorem C3_rounding_counterexample:
  "(- 1 :: rat) \<le> 1 / 4 \<and> (1 / 4 :: rat) \<le> 1
   \<and> spec_speed_code (1 / 4) = 0x8335
   \<and> speed_val (Finite (1 / 4)) = Some 0x8334
   \<and> map_option uint (speed_val (Finite (1 / 4))) \<noteq> Some (spec_speed_code (1 / 4))"
  by code_simp

text \<open>
  C3, amended: for every motor id, flag and speed in \<open>[-1, 1]\<close>, \<^verbatim>\<open>moveJog\<close> computes
  its 16-bit speed code by three branches, from the single-precision product
  \<open>p = speed \<times> 3283.0\<close> with its fraction dropped (towards zero) instead of rounded:
  \<open>0x7fff\<close> for a speed equal to zero, \<open>0x8000 + trunc p\<close> for a positive and
  \<open>0x7fff + trunc p\<close> for a negative speed. No sum leaves the 16-bit range, and the
  frame carries the code in bytes 13 and 14, high byte first.
\<close>

theorem C3_speed_code_truncates:
  assumes "- 1 \<le> q" and "q \<le> 1"
  shows "\<exists>p v. f32_mul_lit (Finite q) 3283 = Finite p
           \<and> speed_val (Finite q) = Some v
           \<and> uint v = (if q = 0 then 0x7fff
                       else if 0 < q then 0x8000 + trunc p else 0x7fff + trunc p)
           \<and> moveJog_cmd can_id (Finite q) flag =
               Some [0x41, 0x54, 0x90, 0x07, 0xe8, can_id, 0x08, 0x05, 0x70, 0x00, 0x00, 0x07,
                     flag, high_byte v, low_byte v, 0x0d, 0x0a]
           \<and> unat (high_byte v) * 256 + unat (low_byte v) = unat v"
proof -
  consider (zero) "q = 0" | (pos) "0 < q" | (neg) "q < 0" by linarith
  then show ?thesis
  proof cases
    case zero
    have "round_mag 0 \<le> 3283" using round_mag_scaled(2)[of 0] by simp
    then have "f32_mul_lit (Finite q) 3283 = Finite (round_mag 0)"
      using zero by (simp add: f32_round_def Let_def)
    moreover have "speed_val (Finite q) = Some 0x7fff"
      using zero by (simp add: speed_val_def)
    moreover have "uint (0x7fff :: 16 word) = 0x7fff" by simp
    ultimately show ?thesis
      using zero moveJog_cmd_Some[of "Finite q" "0x7fff" can_id flag]
        bytes_big_endian[of "0x7fff"]
      by auto
  next
    case pos
    let ?r = "round_mag (q * 3283)"
    define n where "n = \<lfloor>?r\<rfloor>"
    have a: "0 \<le> q * 3283" "q * 3283 \<le> 3283" using pos assms by simp_all
    have n: "0 \<le> n" "n \<le> 3283" unfolding n_def using offset_bounds[OF a] by blast+
    have r: "0 \<le> ?r" using round_mag_scaled(1)[OF a] .
    have m: "f32_mul_lit (Finite q) 3283 = Finite ?r"
      using speed_val_pos(2)[OF pos assms(2)] .
    have v: "speed_val (Finite q) = Some (word_of_int (0x8000 + n))"
      unfolding n_def using speed_val_pos(1)[OF pos assms(2)] .
    have u: "uint (word_of_int (0x8000 + n) :: 16 word) = 0x8000 + n"
      by (rule uint_small, use n in simp, use n in simp)
    have t: "trunc ?r = n" unfolding n_def using r by (rule trunc_nonneg)
    have "uint (word_of_int (0x8000 + n) :: 16 word)
        = (if q = 0 then 0x7fff else if 0 < q then 0x8000 + trunc ?r else 0x7fff + trunc ?r)"
      using pos by (simp only: u t) simp
    with m v moveJog_cmd_Some[OF v, of can_id flag]
      bytes_big_endian[of "word_of_int (0x8000 + n)"]
    show ?thesis by blast
  next
    case neg
    let ?r = "round_mag (- (q * 3283))"
    define n where "n = \<lfloor>?r\<rfloor>"
    have a: "0 \<le> - (q * 3283)" "- (q * 3283) \<le> 3283" using neg assms by simp_all
    have n: "0 \<le> n" "n \<le> 3283" unfolding n_def using offset_bounds[OF a] by blast+
    have r: "0 \<le> ?r" using round_mag_scaled(1)[OF a] .
    have m: "f32_mul_lit (Finite q) 3283 = Finite (- ?r)"
      using speed_val_neg(2)[OF neg assms(1)] .
    have v: "speed_val (Finite q) = Some (word_of_int (0x7fff - n))"
      unfolding n_def using speed_val_neg(1)[OF neg assms(1)] .
    have u: "uint (word_of_int (0x7fff - n) :: 16 word) = 0x7fff - n"
      by (rule uint_small, use n in simp, use n in simp)
    have t: "trunc (- ?r) = - n" unfolding n_def using r by (rule trunc_neg)
    have "uint (word_of_int (0x7fff - n) :: 16 word)
        = (if q = 0 then 0x7fff
           else if 0 < q then 0x8000 + trunc (- ?r) else 0x7fff + trunc (- ?r))"
      using neg by (simp only: u t) simp
    with m v moveJog_cmd_Some[OF v, of can_id flag]
      bytes_big_endian[of "word_of_int (0x7fff - n)"]
    show ?thesis by blast
  qed
qed

theorem C3_speed_code_witness:
  "(- 1 :: rat) \<le> 1 / 2 \<and> (1 / 2 :: rat) \<le> 1
   \<and> (\<exists>p v. f32_mul_lit (Finite (1 / 2)) 3283 = Finite p
         \<and> speed_val (Finite (1 / 2)) = Some v
         \<and> uint v = 0x8000 + trunc p
         \<and> moveJog_cmd 0x0C (Finite (1 / 2)) 1 =
             Some [0x41, 0x54, 0x90, 0x07, 0xe8, 0x0C, 0x08, 0x05, 0x70, 0x00, 0x00, 0x07,
                   0x01, high_byte v, low_byte v, 0x0d, 0x0a]
         \<and> unat (high_byte v) * 256 + unat (low_byte v) = unat v)"
proof -
  have h: "(- 1 :: rat) \<le> 1 / 2" "(1 / 2 :: rat) \<le> 1" by simp_all
  from C3_speed_code_truncates [OF h, of "0x0C" 1] h show ?thesis by simp
qed

lemma speed_val_order_pos:
  assumes "0 < q1" and "q1 \<le> q2" and "q2 \<le> 1"
  shows "\<exists>p1 p2 v1 v2.
           f32_mul_lit (Finite q1) 3283 = Finite p1 \<and> f32_mul_lit (Finite q2) 3283 = Finite p2
           \<and> speed_val (Finite q1) = Some v1 \<and> speed_val (Finite q2) = Some v2
           \<and> v1 \<le> v2 \<and> sint v1 \<le> sint v2
           \<and> (v1 < v2 \<longleftrightarrow> trunc p1 < trunc p2)
           \<and> (sint v1 < sint v2 \<longleftrightarrow> trunc p1 < trunc p2)
           \<and> (v1 = v2 \<longleftrightarrow> trunc p1 = trunc p2)"
proof -
  let ?r1 = "round_mag (q1 * 3283)" and ?r2 = "round_mag (q2 * 3283)"
  define n1 where "n1 = \<lfloor>?r1\<rfloor>"
  define n2 where "n2 = \<lfloor>?r2\<rfloor>"
  let ?v1 = "word_of_int (0x8000 + n1) :: 16 word"
  let ?v2 = "word_of_int (0x8000 + n2) :: 16 word"
  have q: "0 < q2" "q1 \<le> 1" using assms by simp_all
  have a: "0 \<le> q1 * 3283" "q1 * 3283 \<le> q2 * 3283" "q2 * 3283 \<le> 3283"
    "0 \<le> q2 * 3283" "q1 * 3283 \<le> 3283"
    using assms by simp_all
  have n: "0 \<le> n1" "n1 \<le> n2" "n2 \<le> 3283"
    unfolding n1_def n2_def
    using offset_bounds(1)[OF a(1) a(5)] offset_mono[OF a(2)] offset_bounds(2)[OF a(4) a(3)]
    by blast+
  have m: "f32_mul_lit (Finite q1) 3283 = Finite ?r1" "f32_mul_lit (Finite q2) 3283 = Finite ?r2"
    using speed_val_pos(2)[OF assms(1) q(2)] speed_val_pos(2)[OF q(1) assms(3)] by blast+
  have v: "speed_val (Finite q1) = Some ?v1" "speed_val (Finite q2) = Some ?v2"
    unfolding n1_def n2_def
    using speed_val_pos(1)[OF assms(1) q(2)] speed_val_pos(1)[OF q(1) assms(3)] by blast+
  have t: "trunc ?r1 = n1" "trunc ?r2 = n2"
    unfolding n1_def n2_def
    using round_mag_scaled(1)[OF a(1) a(5)] round_mag_scaled(1)[OF a(4) a(3)]
    by (simp_all only: trunc_nonneg)
  have u: "uint ?v1 = 0x8000 + n1" "uint ?v2 = 0x8000 + n2"
    by (rule uint_small, use n in simp, use n in simp)+
  have s: "sint ?v1 = 0x8000 + n1 - 65536" "sint ?v2 = 0x8000 + n2 - 65536"
    by (rule sint_big, use n in simp, use n in simp)+
  have le: "?v1 \<le> ?v2" unfolding word_le_def u using n by simp
  have sle: "sint ?v1 \<le> sint ?v2" unfolding s using n by simp
  have lt: "?v1 < ?v2 \<longleftrightarrow> trunc ?r1 < trunc ?r2" unfolding word_less_def u t by simp
  have slt: "sint ?v1 < sint ?v2 \<longleftrightarrow> trunc ?r1 < trunc ?r2" unfolding s t by simp
  have eq: "?v1 = ?v2 \<longleftrightarrow> trunc ?r1 = trunc ?r2" unfolding word_uint_eq_iff u t by simp
  from m v le sle lt slt eq show ?thesis by blast
qed

lemma speed_val_order_neg:
  assumes "- 1 \<le> q1" and "q1 \<le> q2" and "q2 < 0"
  shows "\<exists>p1 p2 v1 v2.
           f32_mul_lit (Finite q1) 3283 = Finite p1 \<and> f32_mul_lit (Finite q2) 3283 = Finite p2
           \<and> speed_val (Finite q1) = Some v1 \<and> speed_val (Finite q2) = Some v2
           \<and> v1 \<le> v2 \<and> sint v1 \<le> sint v2
           \<and> (v1 < v2 \<longleftrightarrow> trunc p1 < trunc p2)
           \<and> (sint v1 < sint v2 \<longleftrightarrow> trunc p1 < trunc p2)
           \<and> (v1 = v2 \<longleftrightarrow> trunc p1 = trunc p2)"
proof -
  let ?r1 = "round_mag (- (q1 * 3283))" and ?r2 = "round_mag (- (q2 * 3283))"
  define n1 where "n1 = \<lfloor>?r1\<rfloor>"
  define n2 where "n2 = \<lfloor>?r2\<rfloor>"
  let ?v1 = "word_of_int (0x7fff - n1) :: 16 word"
  let ?v2 = "word_of_int (0x7fff - n2) :: 16 word"
  have q: "q1 < 0" "- 1 \<le> q2" using assms by simp_all
  have a: "0 \<le> - (q2 * 3283)" "- (q2 * 3283) \<le> - (q1 * 3283)" "- (q1 * 3283) \<le> 3283"
    "0 \<le> - (q1 * 3283)" "- (q2 * 3283) \<le> 3283"
    using assms by simp_all
  have n: "0 \<le> n2" "n2 \<le> n1" "n1 \<le> 3283"
    unfolding n1_def n2_def
    using offset_bounds(1)[OF a(1) a(5)] offset_mono[OF a(2)] offset_bounds(2)[OF a(4) a(3)]
    by blast+
  have m: "f32_mul_lit (Finite q1) 3283 = Finite (- ?r1)"
    "f32_mul_lit (Finite q2) 3283 = Finite (- ?r2)"
    using speed_val_neg(2)[OF q(1) assms(1)] speed_val_neg(2)[OF assms(3) q(2)] by blast+
  have v: "speed_val (Finite q1) = Some ?v1" "speed_val (Finite q2) = Some ?v2"
    unfolding n1_def n2_def
    using speed_val_neg(1)[OF q(1) assms(1)] speed_val_neg(1)[OF assms(3) q(2)] by blast+
  have t: "trunc (- ?r1) = - n1" "trunc (- ?r2) = - n2"
    unfolding n1_def n2_def
    using round_mag_scaled(1)[OF a(4) a(3)] round_mag_scaled(1)[OF a(1) a(5)]
    by (simp_all only: trunc_neg)
  have u: "uint ?v1 = 0x7fff - n1" "uint ?v2 = 0x7fff - n2"
    by (rule uint_small, use n in simp, use n in simp)+
  have s: "sint ?v1 = 0x7fff - n1" "sint ?v2 = 0x7fff - n2"
    by (rule sint_small, use n in simp, use n in simp)+
  have le: "?v1 \<le> ?v2" unfolding word_le_def u using n by simp
  have sle: "sint ?v1 \<le> sint ?v2" unfolding s using n by simp
  have lt: "?v1 < ?v2 \<longleftrightarrow> trunc (- ?r1) < trunc (- ?r2)"
    unfolding word_less_def u t by simp
  have slt: "sint ?v1 < sint ?v2 \<longleftrightarrow> trunc (- ?r1) < trunc (- ?r2)" unfolding s t by simp
  have eq: "?v1 = ?v2 \<longleftrightarrow> trunc (- ?r1) = trunc (- ?r2)"
    unfolding word_uint_eq_iff u t by simp
  from m v le sle lt slt eq show ?thesis by blast
qed

lemma product_quarter: "f32_mul_lit (Finite (1 / 4)) 3283 = Finite (3283 / 4)"
  by code_simp

lemma product_half: "f32_mul_lit (Finite (1 / 2)) 3283 = Finite (3283 / 2)"
  by code_simp

lemma trunc_quarter_half: "trunc (3283 / 4) < trunc (3283 / 2)"
  by code_simp

section \<open>Order of the speed codes\<close>

text \<open>
  C7, as stated, at the speeds \<open>1/8192 < 1/4096\<close>, both positive and in \<open>[-1, 1]\<close>:
  both are encoded as \<open>0x8000\<close>, so the code does not increase strictly.
\<close>

theorem C7_strict_counterexample:
  "(0 :: rat) < 1 / 8192 \<and> (1 / 8192 :: rat) < 1 / 4096 \<and> (1 / 4096 :: rat) \<le> 1
   \<and> speed_val (Finite (1 / 8192)) = Some 0x8000
   \<and> speed_val (Finite (1 / 4096)) = Some 0x8000
   \<and> \<not> the (speed_val (Finite (1 / 8192))) < the (speed_val (Finite (1 / 4096)))"
  by code_simp

text \<open>
  C7, amended: within each sign region (both speeds positive, or both negative) and
  for \<open>speed1 < speed2\<close> in \<open>[-1, 1]\<close>, the speed code never decreases,
  \<open>encode speed1 \<le> encode speed2\<close>, and it increases strictly exactly when the
  single-precision products \<open>p1 = speed1 \<times> 3283.0\<close> and \<open>p2 = speed2 \<times> 3283.0\<close>
  differ in their integer parts: \<open>encode speed1 < encode speed2\<close> if and only if
  \<open>trunc p1 < trunc p2\<close>, and the two codes are equal if and only if
  \<open>trunc p1 = trunc p2\<close>. This holds of the codes read as unsigned 16-bit numbers
  and read as the \<^verbatim>\<open>int16_t\<close> values of \<^verbatim>\<open>speed_val\<close>.
\<close>

theorem C7_speed_code_monotone:
  assumes "- 1 \<le> q1" and "q1 < q2" and "q2 \<le> 1"
    and "(0 < q1 \<and> 0 < q2) \<or> (q1 < 0 \<and> q2 < 0)"
  shows "\<exists>p1 p2 v1 v2.
           f32_mul_lit (Finite q1) 3283 = Finite p1 \<and> f32_mul_lit (Finite q2) 3283 = Finite p2
           \<and> speed_val (Finite q1) = Some v1 \<and> speed_val (Finite q2) = Some v2
           \<and> v1 \<le> v2 \<and> sint v1 \<le> sint v2
           \<and> (v1 < v2 \<longleftrightarrow> trunc p1 < trunc p2)
           \<and> (sint v1 < sint v2 \<longleftrightarrow> trunc p1 < trunc p2)
           \<and> (v1 = v2 \<longleftrightarrow> trunc p1 = trunc p2)"
proof -
  from assms(2) have le: "q1 \<le> q2" by simp
  from assms(4) show ?thesis
  proof
    assume "0 < q1 \<and> 0 < q2"
    then have "0 < q1" ..
    then show ?thesis using le assms(3) by (rule speed_val_order_pos)
  next
    assume "q1 < 0 \<and> q2 < 0"
    then have "q2 < 0" ..
    with assms(1) le show ?thesis by (rule speed_val_order_neg)
  qed
qed

theorem C7_speed_code_monotone_witness:
  "(- 1 :: rat) \<le> 1 / 4 \<and> (1 / 4 :: rat) < 1 / 2 \<and> (1 / 2 :: rat) \<le> 1
   \<and> (\<exists>v1 v2. speed_val (Finite (1 / 4)) = Some v1 \<and> speed_val (Finite (1 / 2)) = Some v2
         \<and> v1 < v2 \<and> sint v1 < sint v2)"
proof -
  have p: "(- 1 :: rat) \<le> 1 / 4" "(1 / 4 :: rat) < 1 / 2" "(1 / 2 :: rat) \<le> 1"
    "(0 < (1 / 4 :: rat) \<and> 0 < (1 / 2 :: rat)) \<or> ((1 / 4 :: rat) < 0 \<and> (1 / 2 :: rat) < 0)"
    by simp_all
  from C7_speed_code_monotone [OF p] trunc_quarter_half p(1-3) show ?thesis
    unfolding product_quarter product_half by blast
qed

section \<open>The speed the bridge passes on\<close>

lemma round_mag_255_127: "round_mag (255 / 127) = 4210817 / 2097152"
  by code_simp

lemma can_speed_raw_range:
  "\<exists>r. can_speed_raw message = Finite r \<and> 0 \<le> r \<and> r \<le> 4210817 / 2097152"
proof -
  define k where "k = unat (data message ! 0)"
  have "k < 256"
    unfolding k_def using unsigned_less[of "data message ! 0", where 'a=nat] by simp
  then have a: "0 \<le> (of_nat k :: rat) / 127" "(of_nat k :: rat) / 127 \<le> 255 / 127"
    by simp_all
  let ?r = "round_mag (of_nat k / 127)"
  have r: "0 \<le> ?r" "?r \<le> 4210817 / 2097152"
    using round_mag_nonneg[OF a(1)] round_mag_mono[OF a(2)]
    by (simp_all add: round_mag_255_127)
  then have "?r < 2 ^ 128" by simp
  then have "can_speed_raw message = Finite ?r"
    using a(1) by (simp add: can_speed_raw_def f32_of_u8_def k_def f32_round_def Let_def)
  with r show ?thesis by blast
qed

lemma clamp_speed_nonneg:
  "0 \<le> r \<Longrightarrow> clamp_speed (Finite r) = Finite (min r 1)"
  by (simp add: clamp_speed_def f32_gt_def Let_def min_def)

lemma speed_val_defined:
  assumes "0 \<le> q" and "q \<le> 1"
  shows "\<exists>v. speed_val (Finite q) = Some v"
proof (cases "q = 0")
  case True
  then show ?thesis by (simp add: speed_val_def)
next
  case False
  with assms have "0 < q" by simp
  from speed_val_pos(1)[OF this assms(2)] show ?thesis by blast
qed

lemma moveMotor_defined:
  assumes "0 \<le> q" and "q \<le> 1"
  shows "\<exists>res. moveMotor tr can_id (Finite q) evs = Some res"
proof -
  from speed_val_defined[OF assms] obtain v where "speed_val (Finite q) = Some v" ..
  then show ?thesis
    by (simp add: moveMotor_def moveJog_def moveJog_cmd_def Let_def)
qed

text \<open>
  C10: for every frame the bridge accepts, the speed before clamping is a finite value
  in \<open>[0, 255/127]\<close>, the speed handed to \<^verbatim>\<open>moveMotor\<close> is its minimum with 1, in
  \<open>[0, 1]\<close>, and so never negative, whatever the payload byte; the call is defined
  (its cast to \<^verbatim>\<open>int16_t\<close> is in range).
\<close>

theorem C10_bridge_speed_nonnegative:
  assumes "can_accepted message"
  shows "\<exists>r q. can_speed_raw message = Finite r \<and> 0 \<le> r \<and> r \<le> 255 / 127
           \<and> can_command message = Some (can_motor_id message, Finite q)
           \<and> q = min r 1 \<and> 0 \<le> q \<and> q \<le> 1
           \<and> processCANMessage tr (Some message) evs
               = map_option snd (moveMotor tr (can_motor_id message) (Finite q) evs)
           \<and> processCANMessage tr (Some message) evs \<noteq> None"
proof -
  from can_speed_raw_range obtain r
    where r: "can_speed_raw message = Finite r" "0 \<le> r" "r \<le> 4210817 / 2097152" by blast
  define q where "q = min r 1"
  have q: "0 \<le> q" "q \<le> 1" using r(2) by (simp_all add: q_def)
  have c: "can_command message = Some (can_motor_id message, Finite q)"
    using assms r(1) clamp_speed_nonneg[OF r(2)] by (simp add: can_command_def q_def)
  have p: "processCANMessage tr (Some message) evs
      = map_option snd (moveMotor tr (can_motor_id message) (Finite q) evs)"
    by (simp add: processCANMessage_def c)
  from moveMotor_defined[OF q] obtain res
    where "moveMotor tr (can_motor_id message) (Finite q) evs = Some res" ..
  with p have d: "processCANMessage tr (Some message) evs \<noteq> None" by simp
  have "r \<le> 255 / 127" using r(3) by simp
  with r c q p d show ?thesis unfolding q_def by blast
qed

theorem C10_bridge_speed_witness:
  "can_accepted \<lparr>identifier32 = 0x1C, data_length_code = 1,
      data = [0xC0, 0, 0, 0, 0, 0, 0, 0]\<rparr>
   \<and> (\<exists>r q. can_speed_raw \<lparr>identifier32 = 0x1C, data_length_code = 1,
           data = [0xC0, 0, 0, 0, 0, 0, 0, 0]\<rparr> = Finite r
         \<and> 0 \<le> r \<and> r \<le> 255 / 127
         \<and> can_command \<lparr>identifier32 = 0x1C, data_length_code = 1,
           data = [0xC0, 0, 0, 0, 0, 0, 0, 0]\<rparr> = Some (0x0C, Finite q)
         \<and> 0 \<le> q \<and> q \<le> 1)"
proof -
  let ?m = "\<lparr>identifier32 = 0x1C, data_length_code = 1, data = [0xC0, 0, 0, 0, 0, 0, 0, 0]\<rparr>"
  have h: "can_accepted ?m" by (simp add: can_accepted_iff)
  have i: "can_motor_id ?m = 0x0C" by (simp add: can_motor_id_def)
  from C10_bridge_speed_nonnegative [OF h, of "\<lambda>evs cmd. length cmd" "[]"] h
  show ?thesis unfolding i by blast
qed

section \<open>A payload byte with the top bit set\<close>

text \<open>
  C1, at the frame with identifier \<open>0x0C\<close>, length code 1 and payload byte \<open>0x80\<close>:
  \<^verbatim>\<open>message.data[0]\<close> is a \<^verbatim>\<open>uint8_t\<close>, so \<^verbatim>\<open>(float)message.data[0]\<close> is 128 and not
  -128; the quotient \<open>128 / 127\<close> is clamped to 1, and the bridge calls
  \<^verbatim>\<open>moveMotor(0x0C, 1.0)\<close>, which sends the speed code \<open>0x8CD3\<close> of full forward
  speed, where a signed reading of the byte would give the speed -1 and the code
  \<open>0x732C\<close>.
\<close>

theorem C1_payload_0x80_is_full_forward:
  "can_command \<lparr>identifier32 = 0x0C, data_length_code = 1,
      data = [0x80, 0, 0, 0, 0, 0, 0, 0]\<rparr> = Some (0x0C, Finite 1)
   \<and> processCANMessage (\<lambda>evs cmd. length cmd)
       (Some \<lparr>identifier32 = 0x0C, data_length_code = 1,
          data = [0x80, 0, 0, 0, 0, 0, 0, 0]\<rparr>) []
     = Some [Flush,
         Write [0x41, 0x54, 0x90, 0x07, 0xe8, 0x0C, 0x08, 0x05, 0x70, 0x00, 0x00, 0x07, 0x01,
                0x8C, 0xD3, 0x0d, 0x0a] 17,
         Flush, Delay 10]"
  by code_simp

end
